theory Spec2Isabelle
  imports Main "HOL-Library.Word"
begin

unbundle bit_operations_syntax

section \<open>The DFRobot 16x8 RGB LED panel driver\<close>

text \<open>
  A shallow embedding of \<^verbatim>\<open>dfrobot_rgb_panel.py\<close> (class \<^verbatim>\<open>Panel\<close>).

  The instance is a record; every method takes the instance and returns the outcome of
  the call together with the instance as the call leaves it. The outcome is \<open>None\<close>
  when the method returns, and \<open>Some e\<close> when it raises \<open>e\<close>: the instance is returned
  in both cases, since what a method has stored before it raises stays stored.

  Python integers are \<open>int\<close>. The command buffer is a \<^verbatim>\<open>bytearray\<close>: a list of bytes of
  fixed length, read as integers in \<open>0..255\<close>. A store outside the list raises
  \<^verbatim>\<open>IndexError\<close>, and a store of an integer outside \<open>0..255\<close> raises \<^verbatim>\<open>ValueError\<close>, as in
  CPython; an interpreter that truncates such a value instead does the same as this model
  on every store of a value in \<open>0..255\<close>, and the theorems that need a store to succeed
  are stated for such values. The texts given to \<^verbatim>\<open>print\<close> are strings of 8-bit characters,
  so that \<^verbatim>\<open>ord\<close> of a character always fits a byte; code points above 255 are not
  represented.

  Two fields are not attributes of the class, but the environment the methods act on:
  \<open>bus\<close> lists the write transactions made on the I2C bus so far (device address and
  bytes sent), and \<open>stdout\<close> the lines printed so far. The bus is taken to accept every
  write. A device is identified by its address.
\<close>

subsection \<open>Data\<close>

type_synonym byte = "8 word"

datatype exn = IndexError | ValueError

record panel =
  RGBAddress :: nat
  i2c_device :: "nat list"
  buffer_size :: nat
  buffer :: "byte list"
  auto_write_flag :: bool
  bus :: "(nat \<times> byte list) list"
  stdout :: "string list"

type_synonym stmt = "panel \<Rightarrow> exn option \<times> panel"

subsection \<open>Class constants\<close>

definition write_reg :: int where "write_reg = 0x02"
definition COLOR :: int where "COLOR = 0x03"
definition PIX_X :: int where "PIX_X = 0x04"
definition PIX_Y :: int where "PIX_Y = 0x05"
definition BITMAP :: int where "BITMAP = 0x06"
definition STR_reg :: int where "STR_reg = 0x07"

definition UNCLEAR :: int where "UNCLEAR = 0x0"
definition CLEAR :: int where "CLEAR = 0x1"
definition Left :: int where "Left = push_bit 1 0x0"
definition Right :: int where "Right = push_bit 1 0x01"

definition UNSCROLL :: int where "UNSCROLL = push_bit 2 0x0"
definition SCROLL :: int where "SCROLL = push_bit 2 0x1"
definition PIX_ENABLE :: int where "PIX_ENABLE = push_bit 3 0x01"
definition BITMAP_ENABLE :: int where "BITMAP_ENABLE = push_bit 3 0x10"
definition STR_ENABLE :: int where "STR_ENABLE = push_bit 3 0x11"

definition QUENCH :: int where "QUENCH = 0"
definition RED :: int where "RED = 1"
definition GREEN :: int where "GREEN = 2"
definition YELLOW :: int where "YELLOW = 3"
definition BLUE :: int where "BLUE = 4"
definition PURRPLE :: int where "PURRPLE = 5"
definition CYAN :: int where "CYAN = 6"
definition WHITE :: int where "WHITE = 7"
definition SIZE :: int where "SIZE = 50"

subsection \<open>Statements on the instance\<close>

text \<open>\<^verbatim>\<open>self._buffer[i]\<close>, read.\<close>

definition getitem :: "nat \<Rightarrow> panel \<Rightarrow> exn + int" where
  "getitem i p =
     (if i < length (buffer p) then Inr (uint (buffer p ! i)) else Inl IndexError)"

text \<open>\<^verbatim>\<open>self._buffer[i] = v\<close>.\<close>

definition setitem :: "nat \<Rightarrow> int \<Rightarrow> stmt" where
  "setitem i v p =
     (if \<not> i < length (buffer p) then (Some IndexError, p)
      else if v < 0 \<or> 255 < v then (Some ValueError, p)
      else (None, p\<lparr>buffer := (buffer p)[i := word_of_int v]\<rparr>))"

text \<open>
  \<^verbatim>\<open>self._buffer[i] = f(self._buffer[i])\<close>, which is also what the augmented assignments
  \<^verbatim>\<open>self._buffer[i] &= m\<close> and \<^verbatim>\<open>self._buffer[i] |= m\<close> do.
\<close>

definition modify :: "nat \<Rightarrow> (int \<Rightarrow> int) \<Rightarrow> stmt" where
  "modify i f p =
     (case getitem i p of
        Inl e \<Rightarrow> (Some e, p)
      | Inr v \<Rightarrow> setitem i (f v) p)"

text \<open>\<^verbatim>\<open>print(line)\<close>.\<close>

definition print_line :: "string \<Rightarrow> stmt" where
  "print_line line p = (None, p\<lparr>stdout := stdout p @ [line]\<rparr>)"

text \<open>Statements in sequence: the first one that raises ends the method.\<close>

fun run :: "stmt list \<Rightarrow> stmt" where
  "run [] p = (None, p)"
| "run (s # ss) p =
     (case s p of
        (None, p') \<Rightarrow> run ss p'
      | (Some e, p') \<Rightarrow> (Some e, p'))"

subsection \<open>The methods\<close>

text \<open>
  \<^verbatim>\<open>auto_write(self, auto_write)\<close>: the argument is a \<open>bool\<close> here, so the \<^verbatim>\<open>ValueError\<close> for
  an argument of another type has no counterpart.
\<close>

definition auto_write :: "bool \<Rightarrow> stmt" where
  "auto_write b p = (None, p\<lparr>auto_write_flag := b\<rparr>)"

text \<open>
  \<^verbatim>\<open>__init__(self, i2c, auto_write, address)\<close>. The first argument says whether an I2C bus
  was given; without one the constructor prints a usage line and returns before it sets
  any attribute, so there is no panel to speak of. The attribute \<^verbatim>\<open>_temp\<close>, which no method
  reads, is left out.
\<close>

definition init :: "bool \<Rightarrow> bool \<Rightarrow> nat \<Rightarrow> panel option" where
  "init i2c aw address =
     (if \<not> i2c then None
      else Some \<lparr>RGBAddress = address, i2c_device = [address], buffer_size = 17,
                 buffer = replicate (17 * length [address]) 0, auto_write_flag = aw,
                 bus = [], stdout = []\<rparr>)"

text \<open>
  \<^verbatim>\<open>show(self)\<close>: one write transaction for each device, of that device's slice of the
  buffer. A Python slice never raises: it is cut at the end of the buffer.
\<close>

fun show_loop :: "(nat \<times> nat) list \<Rightarrow> panel \<Rightarrow> panel" where
  "show_loop [] p = p"
| "show_loop ((index, i2c_dev) # rest) p =
     (let offset = index * buffer_size p;
          frame = take (buffer_size p) (drop offset (buffer p))
      in show_loop rest (p\<lparr>bus := bus p @ [(i2c_dev, frame)]\<rparr>))"

definition show_panel :: stmt where
  "show_panel p = (None, show_loop (enumerate 0 (i2c_device p)) p)"

text \<open>\<^verbatim>\<open>if self._auto_write: self.show()\<close>, the last statement of every drawing method.\<close>

definition show_if_auto_write :: stmt where
  "show_if_auto_write p = (if auto_write_flag p then show_panel p else (None, p))"

definition sys_disable :: stmt where
  "sys_disable =
     run [setitem 0 write_reg, setitem 1 0x0, setitem 2 0x0, setitem 3 0x0,
          show_if_auto_write]"

definition sys_enable :: stmt where
  "sys_enable =
     run [setitem 0 write_reg, setitem 1 0x0, setitem 2 0x1, setitem 3 0x0,
          show_if_auto_write]"

text \<open>
  \<^verbatim>\<open>scroll(self, direction)\<close>: the direction is \<^verbatim>\<open>None\<close> or an integer. An augmented
  assignment evaluates its right-hand side in full before it combines it with the byte:
  \<^verbatim>\<open>b |= x & y\<close> is \<^verbatim>\<open>b = b | (x & y)\<close>. The last \<^verbatim>\<open>else\<close> of the method, which returns
  without writing to the bus, is kept although no direction reaches it.
\<close>

definition scroll :: "int option \<Rightarrow> stmt" where
  "scroll direction p =
     (if direction \<noteq> None \<and> direction \<noteq> Some Right \<and> direction \<noteq> Some Left
      then print_line ''Usage: direction must be Panel.Right or Panel.Left'' p
      else if direction = None
      then run [modify 1 (\<lambda>b. b AND NOT (push_bit 2 0x01)),
                show_if_auto_write] p
      else if direction = Some Right
      then run [modify 1 (\<lambda>b. b OR (push_bit 2 0x01 OR push_bit 1 0x01)),
                show_if_auto_write] p
      else if direction = Some Left
      then run [modify 1 (\<lambda>b. b OR (push_bit 2 0x01 AND NOT (push_bit 1 0x01))),
                show_if_auto_write] p
      else (None, p))"

definition display :: "int \<Rightarrow> int \<Rightarrow> stmt" where
  "display picIndex color =
     run [setitem 0 write_reg,
          modify 1 (\<lambda>b. (b AND 0xe6) OR push_bit 3 0x02),
          setitem 2 color,
          setitem 4 picIndex,
          show_if_auto_write]"

text \<open>
  \<^verbatim>\<open>print(self, text, color)\<close>. The loop \<^verbatim>\<open>for i in range(length)\<close> stores \<^verbatim>\<open>ord(text[i])\<close> at
  \<^verbatim>\<open>6 + i\<close>; \<open>print_loop i cs\<close> is the loop from index \<open>i\<close> on, \<open>cs\<close> being the characters
  of the text from \<open>i\<close> on.
\<close>

definition ord :: "char \<Rightarrow> int" where
  "ord c = of_char c"

fun print_loop :: "nat \<Rightarrow> string \<Rightarrow> stmt" where
  "print_loop i [] p = (None, p)"
| "print_loop i (c # cs) p =
     (case setitem (6 + i) (ord c) p of
        (None, p') \<Rightarrow> print_loop (Suc i) cs p'
      | (Some e, p') \<Rightarrow> (Some e, p'))"

definition print :: "string \<Rightarrow> int \<Rightarrow> stmt" where
  "print text color p =
     (let len = int (length text) in
      if len > SIZE
      then print_line ''Usage: text length must be less than 50'' p
      else run [setitem 0 write_reg,
                modify 1 (\<lambda>b. (b AND 0xe6) OR push_bit 3 0x03),
                setitem 2 color,
                print_loop 0 text,
                show_if_auto_write] p)"

definition pixel :: "int \<Rightarrow> int \<Rightarrow> int \<Rightarrow> stmt" where
  "pixel x y color =
     run [setitem 0 write_reg,
          modify 1 (\<lambda>b. (b AND 0xe6) OR push_bit 3 0x01),
          setitem 2 color,
          setitem 3 x,
          setitem 4 y,
          show_if_auto_write]"

definition fillScreen :: "int \<Rightarrow> stmt" where
  "fillScreen color =
     run [setitem 0 write_reg,
          setitem 1 0x01,
          modify 1 (\<lambda>b. (b AND 0xe7) OR push_bit 3 0x01),
          setitem 2 color,
          setitem 3 0x00,
          setitem 4 0x00,
          show_if_auto_write]"

definition clear :: stmt where
  "clear =
     run [setitem 0 write_reg, setitem 1 0x01, setitem 2 0x0, show_if_auto_write]"

subsection \<open>Observations\<close>

text \<open>
  The second byte of the buffer packs four fields: bit 0 is the clear flag, bit 1 the
  scroll direction, bit 2 the scroll enable, and bits 3 and 4 the display mode, read here
  as a number from 0 to 3.
\<close>

definition mode_field :: "byte \<Rightarrow> nat" where
  "mode_field b = unat (drop_bit 3 b AND 3)"

text \<open>
  What the constructor establishes and every method keeps: one device, and a buffer of
  one segment of 17 bytes.
\<close>

definition panel_inv :: "panel \<Rightarrow> bool" where
  "panel_inv p \<longleftrightarrow>
     buffer_size p = 17 \<and> length (i2c_device p) = 1 \<and>
     length (buffer p) = buffer_size p * length (i2c_device p)"

text \<open>
  A panel in use, for the examples: every bit of every byte of its buffer is set, and it
  writes to the bus after each call.
\<close>

definition used_panel :: panel where
  "used_panel =
     \<lparr>RGBAddress = 0x10, i2c_device = [0x10], buffer_size = 17,
      buffer = replicate 17 0xFF, auto_write_flag = True, bus = [], stdout = []\<rparr>"

section \<open>Properties\<close>

subsection \<open>The mode field, bit by bit\<close>

lemma and_3: "(x::byte) AND 3 = take_bit 2 x"
  by (simp add: take_bit_eq_mask mask_eq_exp_minus_1)

lemma take_bit_2: "take_bit 2 (x::byte) = of_bool (bit x 0) + 2 * of_bool (bit x 1)"
  by (simp add: numeral_2_eq_2 take_bit_Suc bit_0 bit_1_iff mod_2_eq_odd bit_Suc flip: bit_0)

lemma mode_field_bits: "mode_field b = of_bool (bit b 3) + 2 * of_bool (bit b 4)"
  unfolding mode_field_def and_3 take_bit_2
  by (simp add: bit_drop_bit_eq unat_word_ariths)

subsection \<open>Stores and the bus leave the rest of the buffer alone\<close>

lemma nth_upd: "xs[i := x] ! j = (if i = j \<and> i < length xs then x else xs ! j)"
  by (cases "i < length xs") (auto simp: nth_list_update list_update_beyond)

lemma setitem_ok:
  "i < length (buffer p) \<Longrightarrow> 0 \<le> v \<Longrightarrow> v \<le> 255 \<Longrightarrow>
   setitem i v p = (None, p\<lparr>buffer := (buffer p)[i := word_of_int v]\<rparr>)"
  by (simp add: setitem_def)

lemma modify_ok:
  "i < length (buffer p) \<Longrightarrow>
   0 \<le> f (uint (buffer p ! i)) \<Longrightarrow> f (uint (buffer p ! i)) \<le> 255 \<Longrightarrow>
   modify i f p =
     (None, p\<lparr>buffer := (buffer p)[i := word_of_int (f (uint (buffer p ! i)))]\<rparr>)"
  by (simp add: modify_def getitem_def setitem_def)

lemma setitem_frame:
  "length (buffer (snd (setitem i v p))) = length (buffer p)"
  "j \<noteq> i \<Longrightarrow> buffer (snd (setitem i v p)) ! j = buffer p ! j"
  "bus (snd (setitem i v p)) = bus p"
  by (simp_all add: setitem_def)

lemma show_loop_frame: "buffer (show_loop ds p) = buffer p"
  by (induction ds p rule: show_loop.induct) (simp_all add: Let_def)

lemma show_if_auto_write_frame:
  "buffer (snd (show_if_auto_write p)) = buffer p"
  "fst (show_if_auto_write p) = None"
  by (simp_all add: show_if_auto_write_def show_panel_def show_loop_frame)

lemma mask_or_range:
  assumes "0 \<le> k" "k < 256"
  shows "0 \<le> (uint (b::byte) AND m) OR k \<and> (uint b AND m) OR k \<le> 255"
proof -
  have a: "0 \<le> uint b AND m" by simp
  have "uint b AND m \<le> uint b" by (rule AND_upper1) simp
  moreover have "uint b < 2 ^ 8" using uint_bounded [of b] by simp
  ultimately have b: "uint b AND m < 2 ^ 8" by linarith
  have "(uint b AND m) OR k < 2 ^ 8" using a b assms by (intro OR_upper) simp_all
  then show ?thesis using a assms by simp
qed

lemma run_keeps:
  assumes "\<And>s q. s \<in> set ss \<Longrightarrow>
             length (buffer (snd (s q))) = length (buffer q) \<and>
             buffer (snd (s q)) ! j = buffer q ! j"
  shows "length (buffer (snd (run ss p))) = length (buffer p) \<and>
         buffer (snd (run ss p)) ! j = buffer p ! j"
  using assms
proof (induction ss arbitrary: p)
  case Nil
  then show ?case by simp
next
  case (Cons s ss)
  obtain r p' where sp: "s p = (r, p')" by (cases "s p")
  have k: "length (buffer p') = length (buffer p) \<and> buffer p' ! j = buffer p ! j"
    using Cons.prems [of s p] sp by simp
  show ?case
  proof (cases r)
    case None
    have "length (buffer (snd (run ss p'))) = length (buffer p') \<and>
          buffer (snd (run ss p')) ! j = buffer p' ! j"
      by (rule Cons.IH) (simp add: Cons.prems)
    then show ?thesis using sp None k by simp
  next
    case (Some e)
    then show ?thesis using sp k by simp
  qed
qed

lemma print_loop_frame:
  "length (buffer (snd (print_loop i cs p))) = length (buffer p) \<and>
   (j < 6 \<longrightarrow> buffer (snd (print_loop i cs p)) ! j = buffer p ! j)"
proof (induction cs arbitrary: i p)
  case Nil
  then show ?case by simp
next
  case (Cons c cs)
  obtain r p' where sp: "setitem (6 + i) (ord c) p = (r, p')"
    by (cases "setitem (6 + i) (ord c) p")
  have k: "length (buffer p') = length (buffer p) \<and> (j < 6 \<longrightarrow> buffer p' ! j = buffer p ! j)"
    using setitem_frame(1) [of "6 + i" "ord c" p] setitem_frame(2) [of j "6 + i" "ord c" p] sp
    by simp
  show ?case
  proof (cases r)
    case None
    then show ?thesis using sp k Cons.IH [of "Suc i" p'] by simp
  next
    case (Some e)
    then show ?thesis using sp k by simp
  qed
qed

lemma ord_range: "0 \<le> ord c \<and> ord c \<le> 255"
proof -
  have "0 \<le> (of_char c :: int) mod 256"
    by (rule pos_mod_sign) simp
  moreover have "(of_char c :: int) mod 256 < 256"
    by (rule pos_mod_bound) simp
  ultimately show ?thesis
    unfolding of_char_mod_256 ord_def by simp
qed

lemma take_Suc_update: "n < length xs \<Longrightarrow> take (Suc n) (xs[n := x]) = take n xs @ [x]"
  by (simp add: take_Suc_conv_app_nth)

lemma print_loop_ok:
  "6 + i + length cs \<le> length (buffer p) \<Longrightarrow>
   print_loop i cs p =
     (None, p\<lparr>buffer := take (6 + i) (buffer p) @ map (\<lambda>c. word_of_int (ord c)) cs @
                          drop (6 + i + length cs) (buffer p)\<rparr>)"
proof (induction cs arbitrary: i p)
  case Nil
  then show ?case by simp
next
  case (Cons c cs)
  let ?p' = "p\<lparr>buffer := (buffer p)[6 + i := word_of_int (ord c)]\<rparr>"
  have s: "setitem (6 + i) (ord c) p = (None, ?p')"
    using Cons.prems ord_range [of c] by (intro setitem_ok) simp_all
  have "print_loop (Suc i) cs ?p' =
        (None, ?p'\<lparr>buffer := take (6 + Suc i) (buffer ?p') @ map (\<lambda>c. word_of_int (ord c)) cs @
                          drop (6 + Suc i + length cs) (buffer ?p')\<rparr>)"
    using Cons.prems by (intro Cons.IH) simp
  moreover have "take (6 + Suc i) (buffer ?p') = take (6 + i) (buffer p) @ [word_of_int (ord c)]"
    using Cons.prems take_Suc_update [of "6 + i" "buffer p" "word_of_int (ord c)"] by simp
  moreover have "drop (6 + Suc i + length cs) (buffer ?p') = drop (6 + Suc i + length cs) (buffer p)"
    by simp
  ultimately show ?case using s by (simp add: add.assoc)
qed

lemma print_loop_bus: "bus (snd (print_loop i cs p)) = bus p"
proof (induction cs arbitrary: i p)
  case Nil
  then show ?case by simp
next
  case (Cons c cs)
  obtain r p' where sp: "setitem (6 + i) (ord c) p = (r, p')"
    by (cases "setitem (6 + i) (ord c) p")
  have k: "bus p' = bus p"
    using setitem_frame(3) [of "6 + i" "ord c" p] sp by simp
  show ?case
    using sp k Cons.IH [of "Suc i" p'] by (cases r) simp_all
qed

lemma print_loop_raises:
  "6 + i \<le> length (buffer p) \<Longrightarrow> length (buffer p) < 6 + i + length cs \<Longrightarrow>
   fst (print_loop i cs p) = Some IndexError"
proof (induction cs arbitrary: i p)
  case Nil
  then show ?case by simp
next
  case (Cons c cs)
  show ?case
  proof (cases "6 + i < length (buffer p)")
    case True
    let ?p' = "p\<lparr>buffer := (buffer p)[6 + i := word_of_int (ord c)]\<rparr>"
    have s: "setitem (6 + i) (ord c) p = (None, ?p')"
      using True ord_range [of c] by (intro setitem_ok) simp_all
    have "fst (print_loop (Suc i) cs ?p') = Some IndexError"
      using True Cons.prems by (intro Cons.IH) simp_all
    then show ?thesis using s by simp
  next
    case False
    then show ?thesis by (simp add: setitem_def)
  qed
qed

subsection \<open>The constructor's invariant\<close>

text \<open>
  Every method keeps the invariant, whatever its arguments and whether it returns or
  raises; so the hypotheses on the panel in the theorems below hold in every state a
  program can reach from the constructor.
\<close>

lemma init_inv: "init True aw a = Some p \<Longrightarrow> panel_inv p \<and> buffer p = replicate 17 0"
  by (auto simp: init_def panel_inv_def)

lemma run_inv:
  assumes "\<And>s q. s \<in> set ss \<Longrightarrow> panel_inv q \<Longrightarrow> panel_inv (snd (s q))" "panel_inv p"
  shows "panel_inv (snd (run ss p))"
  using assms
proof (induction ss arbitrary: p)
  case Nil
  then show ?case by simp
next
  case (Cons s ss)
  obtain r p' where sp: "s p = (r, p')" by (cases "s p")
  have k: "panel_inv p'"
    using Cons.prems(1) [of s p] Cons.prems(2) sp by simp
  show ?case
  proof (cases r)
    case None
    have "panel_inv (snd (run ss p'))"
      by (rule Cons.IH) (simp_all add: Cons.prems(1) k)
    then show ?thesis using sp None by simp
  next
    case (Some e)
    then show ?thesis using sp k by simp
  qed
qed

lemma setitem_inv: "panel_inv p \<Longrightarrow> panel_inv (snd (setitem i v p))"
  by (simp add: setitem_def panel_inv_def)

lemma modify_inv: "panel_inv p \<Longrightarrow> panel_inv (snd (modify i f p))"
  by (simp add: modify_def getitem_def setitem_inv)

lemma show_loop_fields:
  "buffer_size (show_loop ds p) = buffer_size p \<and> i2c_device (show_loop ds p) = i2c_device p"
  by (induction ds p rule: show_loop.induct) (simp_all add: Let_def)

lemma show_if_auto_write_inv: "panel_inv p \<Longrightarrow> panel_inv (snd (show_if_auto_write p))"
  by (simp add: show_if_auto_write_def show_panel_def panel_inv_def show_loop_frame
        show_loop_fields)

lemma print_loop_inv: "panel_inv p \<Longrightarrow> panel_inv (snd (print_loop i cs p))"
proof (induction cs arbitrary: i p)
  case Nil
  then show ?case by simp
next
  case (Cons c cs)
  obtain r p' where sp: "setitem (6 + i) (ord c) p = (r, p')"
    by (cases "setitem (6 + i) (ord c) p")
  have k: "panel_inv p'"
    using setitem_inv [OF Cons.prems, of "6 + i" "ord c"] sp by simp
  show ?case
    using sp k Cons.IH [OF k, of "Suc i"] by (cases r) simp_all
qed

lemma show_panel_one:
  assumes "panel_inv p"
  shows "show_panel p = (None, p\<lparr>bus := bus p @ [(hd (i2c_device p), buffer p)]\<rparr>)"
proof -
  obtain a where a: "i2c_device p = [a]"
    using assms by (auto simp: panel_inv_def length_Suc_conv)
  then show ?thesis
    using assms by (simp add: show_panel_def panel_inv_def)
qed

lemma methods_keep_inv:
  assumes "panel_inv p"
  shows "panel_inv (snd (sys_disable p))" "panel_inv (snd (sys_enable p))"
    "panel_inv (snd (scroll d p))" "panel_inv (snd (display i c p))"
    "panel_inv (snd (print text c p))" "panel_inv (snd (pixel x y c p))"
    "panel_inv (snd (fillScreen c p))" "panel_inv (snd (clear p))"
    "panel_inv (snd (auto_write b p))" "panel_inv (snd (show_panel p))"
proof -
  note step = setitem_inv modify_inv show_if_auto_write_inv print_loop_inv
  show "panel_inv (snd (sys_disable p))"
    unfolding sys_disable_def by (rule run_inv [OF _ assms]) (auto simp: step)
  show "panel_inv (snd (sys_enable p))"
    unfolding sys_enable_def by (rule run_inv [OF _ assms]) (auto simp: step)
  show "panel_inv (snd (display i c p))"
    unfolding display_def by (rule run_inv [OF _ assms]) (auto simp: step)
  show "panel_inv (snd (pixel x y c p))"
    unfolding pixel_def by (rule run_inv [OF _ assms]) (auto simp: step)
  show "panel_inv (snd (fillScreen c p))"
    unfolding fillScreen_def by (rule run_inv [OF _ assms]) (auto simp: step)
  show "panel_inv (snd (clear p))"
    unfolding clear_def by (rule run_inv [OF _ assms]) (auto simp: step)
  show "panel_inv (snd (auto_write b p))"
    using assms by (simp add: auto_write_def panel_inv_def)
  show "panel_inv (snd (show_panel p))"
    using assms by (simp add: show_panel_one) (simp add: panel_inv_def)
  have u: "panel_inv (snd (print_line l p))" for l
    using assms by (simp add: print_line_def panel_inv_def)
  have m: "panel_inv (snd (run [modify 1 f, show_if_auto_write] p))" for f
    by (rule run_inv [OF _ assms]) (auto simp: step)
  show "panel_inv (snd (scroll d p))"
    unfolding scroll_def using u assms m by (simp del: run.simps)
  have "panel_inv (snd (run [setitem 0 write_reg,
          modify 1 (\<lambda>b. (b AND 0xe6) OR push_bit 3 0x03), setitem 2 c, print_loop 0 text,
          show_if_auto_write] p))"
    by (rule run_inv [OF _ assms]) (auto simp: step)
  then show "panel_inv (snd (print text c p))"
    unfolding print_def Let_def using u by (simp del: run.simps)
qed

subsection \<open>The calls that select a display mode\<close>

text \<open>
  \<^verbatim>\<open>pixel\<close>, \<^verbatim>\<open>display\<close> and \<^verbatim>\<open>print\<close> begin with the same two stores: the register constant
  into byte 0, and byte 1 masked with \<^verbatim>\<open>0xe6\<close> and combined with the mode bits. No later
  statement of theirs touches byte 1, whether it returns or raises.
\<close>

lemma mode_prefix:
  assumes "1 < length (buffer p)" "0 \<le> k" "k < 256"
  shows "run (setitem 0 write_reg # modify 1 (\<lambda>b. (b AND m) OR k) # rest) p =
         run rest (p\<lparr>buffer := (buffer p)[0 := 2,
                      1 := word_of_int ((uint (buffer p ! 1) AND m) OR k)]\<rparr>)"
proof -
  let ?p0 = "p\<lparr>buffer := (buffer p)[0 := 2]\<rparr>"
  have s0: "setitem 0 write_reg p = (None, ?p0)"
    using assms(1) by (auto simp: setitem_def write_reg_def)
  have r: "0 \<le> (uint (buffer ?p0 ! 1) AND m) OR k \<and> (uint (buffer ?p0 ! 1) AND m) OR k \<le> 255"
    by (rule mask_or_range) (use assms in simp_all)
  have s1: "modify 1 (\<lambda>b. (b AND m) OR k) ?p0 =
            (None, ?p0\<lparr>buffer := (buffer ?p0)[1 := word_of_int ((uint (buffer ?p0 ! 1) AND m) OR k)]\<rparr>)"
    using assms(1) r by (intro modify_ok) simp_all
  show ?thesis using s0 s1 by simp
qed

lemma mode_call_byte1:
  assumes "1 < length (buffer p)" "0 \<le> k" "k < 256"
    and "\<And>s q. s \<in> set rest \<Longrightarrow>
           length (buffer (snd (s q))) = length (buffer q) \<and>
           buffer (snd (s q)) ! 1 = buffer q ! 1"
  shows "buffer (snd (run (setitem 0 write_reg # modify 1 (\<lambda>b. (b AND m) OR k) # rest) p)) ! 1 =
         word_of_int ((uint (buffer p ! 1) AND m) OR k)"
proof -
  let ?q = "p\<lparr>buffer := (buffer p)[0 := 2,
               1 := word_of_int ((uint (buffer p ! 1) AND m) OR k)]\<rparr>"
  have e: "run (setitem 0 write_reg # modify 1 (\<lambda>b. (b AND m) OR k) # rest) p = run rest ?q"
    by (rule mode_prefix) (rule assms)+
  have "buffer (snd (run rest ?q)) ! 1 = buffer ?q ! 1"
    by (rule run_keeps [THEN conjunct2]) (rule assms(4))
  also have "\<dots> = word_of_int ((uint (buffer p ! 1) AND m) OR k)"
    using assms(1) by simp
  finally show ?thesis unfolding e .
qed

lemma run_show_last:
  "(case show_if_auto_write q of (None, p') \<Rightarrow> f p' | (Some e, p') \<Rightarrow> g e p') =
   f (snd (show_if_auto_write q))"
  by (simp add: show_if_auto_write_def show_panel_def)

lemma pixel_byte1:
  assumes "1 < length (buffer p)"
  shows "buffer (snd (pixel x y c p)) ! 1 =
         word_of_int ((uint (buffer p ! 1) AND 0xe6) OR push_bit 3 0x01)"
  unfolding pixel_def using assms
  by (intro mode_call_byte1) (auto simp: setitem_frame show_if_auto_write_frame)

lemma display_byte1:
  assumes "1 < length (buffer p)"
  shows "buffer (snd (display i c p)) ! 1 =
         word_of_int ((uint (buffer p ! 1) AND 0xe6) OR push_bit 3 0x02)"
  unfolding display_def using assms
  by (intro mode_call_byte1) (auto simp: setitem_frame show_if_auto_write_frame)

lemma print_byte1:
  assumes "1 < length (buffer p)" "length text \<le> 50"
  shows "buffer (snd (print text c p)) ! 1 =
         word_of_int ((uint (buffer p ! 1) AND 0xe6) OR push_bit 3 0x03)"
proof -
  have "print text c p =
        run [setitem 0 write_reg, modify 1 (\<lambda>b. (b AND 0xe6) OR push_bit 3 0x03),
             setitem 2 c, print_loop 0 text, show_if_auto_write] p"
    using assms(2) by (simp add: print_def SIZE_def)
  moreover have "buffer (snd (run [setitem 0 write_reg,
             modify 1 (\<lambda>b. (b AND 0xe6) OR push_bit 3 0x03),
             setitem 2 c, print_loop 0 text, show_if_auto_write] p)) ! 1 =
         word_of_int ((uint (buffer p ! 1) AND 0xe6) OR push_bit 3 0x03)"
    using assms(1)
    by (intro mode_call_byte1)
       (auto simp: setitem_frame show_if_auto_write_frame print_loop_frame)
  ultimately show ?thesis by simp
qed

lemma fillScreen_byte1:
  assumes "1 < length (buffer p)"
  shows "buffer (snd (fillScreen c p)) ! 1 = 9"
proof -
  let ?q = "p\<lparr>buffer := (buffer p)[0 := 2, 1 := 9]\<rparr>"
  let ?rest = "[setitem 2 c, setitem 3 0x00, setitem 4 0x00, show_if_auto_write]"
  have "fillScreen c p = run ?rest ?q"
    using assms by (auto simp: fillScreen_def setitem_def modify_def getitem_def write_reg_def)
  moreover have "buffer (snd (run ?rest ?q)) ! 1 = buffer ?q ! 1"
    by (rule run_keeps [THEN conjunct2]) (auto simp: setitem_frame show_if_auto_write_frame)
  ultimately show ?thesis using assms by simp
qed

lemma uint_byte: "0 \<le> v \<Longrightarrow> v \<le> 255 \<Longrightarrow> uint (word_of_int v :: byte) = v"
  by (simp add: uint_word_of_int)

lemma pixel_ok:
  assumes "4 < length (buffer p)" "0 \<le> c" "c \<le> 255" "0 \<le> x" "x \<le> 255" "0 \<le> y" "y \<le> 255"
  shows "pixel x y c p =
         (None, snd (show_if_auto_write
           (p\<lparr>buffer := (buffer p)[0 := 2,
                 1 := word_of_int ((uint (buffer p ! 1) AND 0xe6) OR push_bit 3 0x01),
                 2 := word_of_int c, 3 := word_of_int x, 4 := word_of_int y]\<rparr>)))"
proof -
  have e: "pixel x y c p =
           run [setitem 2 c, setitem 3 x, setitem 4 y, show_if_auto_write]
             (p\<lparr>buffer := (buffer p)[0 := 2,
                 1 := word_of_int ((uint (buffer p ! 1) AND 0xe6) OR push_bit 3 0x01)]\<rparr>)"
    unfolding pixel_def by (rule mode_prefix) (use assms in simp_all)
  show ?thesis unfolding e using assms by (simp add: setitem_ok run_show_last)
qed

lemma display_ok:
  assumes "4 < length (buffer p)" "0 \<le> c" "c \<le> 255" "0 \<le> i" "i \<le> 255"
  shows "display i c p =
         (None, snd (show_if_auto_write
           (p\<lparr>buffer := (buffer p)[0 := 2,
                 1 := word_of_int ((uint (buffer p ! 1) AND 0xe6) OR push_bit 3 0x02),
                 2 := word_of_int c, 4 := word_of_int i]\<rparr>)))"
proof -
  have e: "display i c p =
           run [setitem 2 c, setitem 4 i, show_if_auto_write]
             (p\<lparr>buffer := (buffer p)[0 := 2,
                 1 := word_of_int ((uint (buffer p ! 1) AND 0xe6) OR push_bit 3 0x02)]\<rparr>)"
    unfolding display_def by (rule mode_prefix) (use assms in simp_all)
  show ?thesis unfolding e using assms by (simp add: setitem_ok run_show_last)
qed

lemma fillScreen_ok:
  assumes "4 < length (buffer p)" "0 \<le> c" "c \<le> 255"
  shows "fillScreen c p =
         (None, snd (show_if_auto_write
           (p\<lparr>buffer := (buffer p)[0 := 2, 1 := 9, 2 := word_of_int c, 3 := 0, 4 := 0]\<rparr>)))"
  using assms
  by (auto simp: fillScreen_def setitem_def modify_def getitem_def write_reg_def run_show_last)

text \<open>
  Claim C1. For every buffer of 17 bytes, every colour code \<open>c\<close> from 0 to 7 and all
  coordinates \<open>x\<close>, \<open>y\<close> from 0 to 255: \<^verbatim>\<open>pixel(x, y, c)\<close> returns, and afterwards byte 0 is
  the write-register constant, the mode field of byte 1 is 1 (pixel mode), byte 2 is \<open>c\<close>,
  byte 3 is \<open>x\<close>, byte 4 is \<open>y\<close>, and the bytes from 5 on are what they were.
\<close>

theorem pixel_sets_bytes:
  assumes "length (buffer p) = 17" "0 \<le> c" "c \<le> 7" "0 \<le> x" "x \<le> 255" "0 \<le> y" "y \<le> 255"
  shows "fst (pixel x y c p) = None \<and>
         uint (buffer (snd (pixel x y c p)) ! 0) = write_reg \<and>
         mode_field (buffer (snd (pixel x y c p)) ! 1) = 1 \<and>
         uint (buffer (snd (pixel x y c p)) ! 2) = c \<and>
         uint (buffer (snd (pixel x y c p)) ! 3) = x \<and>
         uint (buffer (snd (pixel x y c p)) ! 4) = y \<and>
         length (buffer (snd (pixel x y c p))) = 17 \<and>
         drop 5 (buffer (snd (pixel x y c p))) = drop 5 (buffer p)"
proof -
  have ok: "pixel x y c p =
         (None, snd (show_if_auto_write
           (p\<lparr>buffer := (buffer p)[0 := 2,
                 1 := word_of_int ((uint (buffer p ! 1) AND 0xe6) OR push_bit 3 0x01),
                 2 := word_of_int c, 3 := word_of_int x, 4 := word_of_int y]\<rparr>)))"
    using assms by (intro pixel_ok) simp_all
  have m: "mode_field (word_of_int ((uint (buffer p ! 1) AND 0xe6) OR push_bit 3 0x01)) = 1"
    by (simp add: mode_field_bits bit_simps)
  show ?thesis
    using assms m by (simp add: ok show_if_auto_write_frame uint_byte write_reg_def)
qed

theorem pixel_sets_bytes_witness:
  "length (buffer used_panel) = 17 \<and>
   fst (pixel 3 5 RED used_panel) = None \<and>
   uint (buffer (snd (pixel 3 5 RED used_panel)) ! 0) = write_reg \<and>
   mode_field (buffer (snd (pixel 3 5 RED used_panel)) ! 1) = 1 \<and>
   uint (buffer (snd (pixel 3 5 RED used_panel)) ! 2) = RED \<and>
   uint (buffer (snd (pixel 3 5 RED used_panel)) ! 3) = 3 \<and>
   uint (buffer (snd (pixel 3 5 RED used_panel)) ! 4) = 5 \<and>
   length (buffer (snd (pixel 3 5 RED used_panel))) = 17 \<and>
   drop 5 (buffer (snd (pixel 3 5 RED used_panel))) = drop 5 (buffer used_panel)"
  using pixel_sets_bytes [of used_panel RED 3 5]
  by (simp add: used_panel_def RED_def)

text \<open>
  Claim C6, as written, says that after each call that selects a mode, \<^verbatim>\<open>fillScreen\<close> among
  them, the mode field is the value of the mode selected; fill mode has the value 0. On a
  new panel that shows a built-in picture (mode 2) and is then filled, the field is not 0
  after \<^verbatim>\<open>fillScreen(GREEN)\<close>.
\<close>

theorem mode_field_exclusive_counterexample:
  "mode_field
     (buffer (snd (fillScreen GREEN (snd (display 4 RED (the (init True False 0x10)))))) ! 1)
   \<noteq> 0"
  by code_simp

text \<open>
  Claim C6, amended. For every buffer of 17 bytes, whatever byte 1 held before and
  whatever the arguments: after \<^verbatim>\<open>pixel\<close> the mode field is 1, after \<^verbatim>\<open>display\<close> it is 2, and
  after \<^verbatim>\<open>print\<close> of a text of at most 50 characters it is 3, the value of the mode selected;
  after \<^verbatim>\<open>fillScreen\<close> it is 1, the value that method stores (\<^verbatim>\<open>0x01 << 3\<close>), which is the
  value of pixel mode. In each case the field does not depend on what it held before: no
  bit of an earlier mode stays. This is the field as the call leaves it, also when a later
  store of the call raises.
\<close>

theorem mode_field_exclusive:
  assumes "length (buffer p) = 17"
  shows "mode_field (buffer (snd (pixel x y c p)) ! 1) = 1 \<and>
         mode_field (buffer (snd (display i c p)) ! 1) = 2 \<and>
         (length text \<le> 50 \<longrightarrow> mode_field (buffer (snd (print text c p)) ! 1) = 3) \<and>
         mode_field (buffer (snd (fillScreen c p)) ! 1) = 1"
proof -
  have l: "1 < length (buffer p)" using assms by simp
  have "mode_field (buffer (snd (pixel x y c p)) ! 1) = 1"
    using pixel_byte1 [OF l, of x y c] by (simp add: mode_field_bits bit_simps)
  moreover have "mode_field (buffer (snd (display i c p)) ! 1) = 2"
    using display_byte1 [OF l, of i c] by (simp add: mode_field_bits bit_simps)
  moreover have "mode_field (buffer (snd (print text c p)) ! 1) = 3" if "length text \<le> 50"
    using print_byte1 [OF l that, of c] by (simp add: mode_field_bits bit_simps)
  moreover have "mode_field (buffer (snd (fillScreen c p)) ! 1) = 1"
    using fillScreen_byte1 [OF l, of c] by (simp add: mode_field_bits)
  ultimately show ?thesis by simp
qed

theorem mode_field_exclusive_witness:
  "length (buffer used_panel) = 17 \<and> length ''Hello World'' \<le> 50 \<and>
   mode_field (buffer used_panel ! 1) = 3 \<and>
   mode_field (buffer (snd (pixel 3 5 RED used_panel)) ! 1) = 1 \<and>
   mode_field (buffer (snd (display 4 RED used_panel)) ! 1) = 2 \<and>
   mode_field (buffer (snd (print ''Hello World'' RED used_panel)) ! 1) = 3 \<and>
   mode_field (buffer (snd (fillScreen RED used_panel)) ! 1) = 1"
  using mode_field_exclusive [of used_panel 3 5 RED 4 "''Hello World''"]
  by (simp add: used_panel_def mode_field_bits)

text \<open>
  Claim C10. The mask \<^verbatim>\<open>0xe6\<close> clears bit 0 of byte 1 along with the mode field: for every
  buffer of 17 bytes, after \<^verbatim>\<open>pixel\<close>, after \<^verbatim>\<open>print\<close> of a text of at most 50 characters and
  after \<^verbatim>\<open>display\<close>, the clear flag (bit 0 of byte 1) is 0.
\<close>

theorem clear_flag_reset:
  assumes "length (buffer p) = 17"
  shows "\<not> bit (buffer (snd (pixel x y c p)) ! 1) 0 \<and>
         (length text \<le> 50 \<longrightarrow> \<not> bit (buffer (snd (print text c p)) ! 1) 0) \<and>
         \<not> bit (buffer (snd (display i c p)) ! 1) 0"
proof -
  have l: "1 < length (buffer p)" using assms by simp
  have "\<not> bit (buffer (snd (pixel x y c p)) ! 1) 0"
    using pixel_byte1 [OF l, of x y c] by (simp add: bit_simps)
  moreover have "\<not> bit (buffer (snd (print text c p)) ! 1) 0" if "length text \<le> 50"
    using print_byte1 [OF l that, of c] by (simp add: bit_simps)
  moreover have "\<not> bit (buffer (snd (display i c p)) ! 1) 0"
    using display_byte1 [OF l, of i c] by (simp add: bit_simps)
  ultimately show ?thesis by simp
qed

theorem clear_flag_reset_witness:
  "length (buffer used_panel) = 17 \<and> length ''Hi'' \<le> 50 \<and> bit (buffer used_panel ! 1) 0 \<and>
   \<not> bit (buffer (snd (pixel 3 5 RED used_panel)) ! 1) 0 \<and>
   \<not> bit (buffer (snd (print ''Hi'' RED used_panel)) ! 1) 0 \<and>
   \<not> bit (buffer (snd (display 4 RED used_panel)) ! 1) 0"
  using clear_flag_reset [of used_panel 3 5 RED "''Hi''" 4]
  by (simp add: used_panel_def)

subsection \<open>Printing a text\<close>

text \<open>
  After the two stores of the mode and the store of the colour, \<^verbatim>\<open>print\<close> copies the text
  into the buffer from byte 6 on. A buffer of 17 bytes has room for 11 characters.
\<close>

lemma print_prefix:
  assumes "2 < length (buffer p)" "length text \<le> 50" "0 \<le> c" "c \<le> 255"
  shows "print text c p =
         run [print_loop 0 text, show_if_auto_write]
           (p\<lparr>buffer := (buffer p)[0 := 2,
                 1 := word_of_int ((uint (buffer p ! 1) AND 0xe6) OR push_bit 3 0x03),
                 2 := word_of_int c]\<rparr>)"
proof -
  let ?q = "p\<lparr>buffer := (buffer p)[0 := 2,
               1 := word_of_int ((uint (buffer p ! 1) AND 0xe6) OR push_bit 3 0x03)]\<rparr>"
  have "print text c p =
        run [setitem 0 write_reg, modify 1 (\<lambda>b. (b AND 0xe6) OR push_bit 3 0x03),
             setitem 2 c, print_loop 0 text, show_if_auto_write] p"
    using assms(2) by (simp add: print_def SIZE_def)
  also have "\<dots> = run [setitem 2 c, print_loop 0 text, show_if_auto_write] ?q"
    by (rule mode_prefix) (use assms in simp_all)
  also have "\<dots> = run [print_loop 0 text, show_if_auto_write] (?q\<lparr>buffer := (buffer ?q)[2 := word_of_int c]\<rparr>)"
    using assms by (simp add: setitem_ok)
  finally show ?thesis by simp
qed

lemma print_short_ok:
  assumes "length (buffer p) = 17" "length text \<le> 11" "0 \<le> c" "c \<le> 255"
  shows "print text c p =
         (None, snd (show_if_auto_write
           (p\<lparr>buffer := take 6 ((buffer p)[0 := 2,
                   1 := word_of_int ((uint (buffer p ! 1) AND 0xe6) OR push_bit 3 0x03),
                   2 := word_of_int c]) @
                 map (\<lambda>ch. word_of_int (ord ch)) text @
                 drop (6 + length text) (buffer p)\<rparr>)))"
proof -
  let ?q = "p\<lparr>buffer := (buffer p)[0 := 2,
                 1 := word_of_int ((uint (buffer p ! 1) AND 0xe6) OR push_bit 3 0x03),
                 2 := word_of_int c]\<rparr>"
  have e: "print text c p = run [print_loop 0 text, show_if_auto_write] ?q"
    using assms by (intro print_prefix) simp_all
  have l: "print_loop 0 text ?q =
           (None, ?q\<lparr>buffer := take (6 + 0) (buffer ?q) @ map (\<lambda>c. word_of_int (ord c)) text @
                          drop (6 + 0 + length text) (buffer ?q)\<rparr>)"
    using assms by (intro print_loop_ok) simp
  show ?thesis unfolding e using l by (simp add: run_show_last)
qed

lemma print_short_bytes:
  assumes "length (buffer p) = 17" "length text \<le> 11" "0 \<le> c" "c \<le> 255"
  shows "fst (print text c p) = None \<and>
         mode_field (buffer (snd (print text c p)) ! 1) = 3 \<and>
         uint (buffer (snd (print text c p)) ! 2) = c \<and>
         take (length text) (drop 6 (buffer (snd (print text c p)))) =
           map (\<lambda>ch. word_of_int (ord ch)) text"
proof -
  let ?q = "p\<lparr>buffer := (buffer p)[0 := 2,
                 1 := word_of_int ((uint (buffer p ! 1) AND 0xe6) OR push_bit 3 0x03),
                 2 := word_of_int c]\<rparr>"
  let ?r = "?q\<lparr>buffer := take (6 + 0) (buffer ?q) @ map (\<lambda>c. word_of_int (ord c)) text @
                          drop (6 + 0 + length text) (buffer ?q)\<rparr>"
  have e: "print text c p = run [print_loop 0 text, show_if_auto_write] ?q"
    using assms by (intro print_prefix) simp_all
  have l: "print_loop 0 text ?q = (None, ?r)"
    using assms by (intro print_loop_ok) simp
  have f: "print text c p = (None, snd (show_if_auto_write ?r))"
    unfolding e using l by (simp add: run_show_last)
  have m: "mode_field (word_of_int ((uint (buffer p ! 1) AND 0xe6) OR push_bit 3 0x03)) = 3"
    by (simp add: mode_field_bits bit_simps)
  have "buffer (snd (print text c p)) = buffer ?r"
    unfolding f by (simp add: show_if_auto_write_frame)
  then show ?thesis
    using assms m by (simp add: f nth_append uint_byte)
qed

lemma print_raises:
  assumes "length (buffer p) = 17" "11 < length text" "length text \<le> 50" "0 \<le> c" "c \<le> 255"
  shows "fst (print text c p) = Some IndexError \<and> bus (snd (print text c p)) = bus p"
proof -
  let ?q = "p\<lparr>buffer := (buffer p)[0 := 2,
                 1 := word_of_int ((uint (buffer p ! 1) AND 0xe6) OR push_bit 3 0x03),
                 2 := word_of_int c]\<rparr>"
  have e: "print text c p = run [print_loop 0 text, show_if_auto_write] ?q"
    using assms by (intro print_prefix) simp_all
  have l: "fst (print_loop 0 text ?q) = Some IndexError"
    using assms by (intro print_loop_raises) simp_all
  have b: "bus (snd (print_loop 0 text ?q)) = bus ?q"
    by (rule print_loop_bus)
  obtain r where r: "print_loop 0 text ?q = (Some IndexError, r)"
    using l by (cases "print_loop 0 text ?q") simp
  show ?thesis unfolding e using r b by simp
qed

text \<open>
  Claim C4 says that \<^verbatim>\<open>print\<close> succeeds for every text of at most 50 characters, which is
  what the method's own check (\<^verbatim>\<open>length > Panel.SIZE\<close>, with \<^verbatim>\<open>SIZE = 50\<close>) lets through. On
  a new panel, \<^verbatim>\<open>print("Hello World!", Panel.RED)\<close>, a text of 12 characters, raises
  \<^verbatim>\<open>IndexError\<close>: the twelfth character goes to index 17 of a buffer of 17 bytes. By
  \<open>print_raises\<close> the same happens for every text of 12 to 50 characters, and by
  \<open>print_short_bytes\<close> the claim holds for the texts of at most 11.
\<close>

theorem print_twelve_characters_raises:
  "fst (print ''Hello World!'' RED (the (init True True 0x10))) = Some IndexError"
  by code_simp

subsection \<open>Filling the screen\<close>

text \<open>
  Claim C3, as written, says that \<^verbatim>\<open>fillScreen\<close> leaves 0 in the mode field. On a new panel
  the field is not 0 after \<^verbatim>\<open>fillScreen(RED)\<close>.
\<close>

theorem fillScreen_mode_field_counterexample:
  "mode_field (buffer (snd (fillScreen RED (the (init True True 0x10)))) ! 1) \<noteq> 0"
  by code_simp

text \<open>
  Claim C3, amended. For every buffer of 17 bytes and every colour \<open>c\<close>, after
  \<^verbatim>\<open>fillScreen(c)\<close> byte 1 is \<^verbatim>\<open>0x09\<close>: the mode field is 1, the value \<^verbatim>\<open>pixel\<close> stores as well,
  and the clear flag is set. The method stores \<^verbatim>\<open>0x01\<close> and then combines it with
  \<^verbatim>\<open>0x01 << 3\<close>.
\<close>

theorem fillScreen_mode_field:
  assumes "length (buffer p) = 17"
  shows "buffer (snd (fillScreen c p)) ! 1 = 0x09 \<and>
         mode_field (buffer (snd (fillScreen c p)) ! 1) = 1"
proof -
  have "buffer (snd (fillScreen c p)) ! 1 = 9"
    using assms by (intro fillScreen_byte1) simp
  then show ?thesis by (simp add: mode_field_bits)
qed

theorem fillScreen_mode_field_witness:
  "length (buffer used_panel) = 17 \<and>
   buffer (snd (fillScreen BLUE used_panel)) ! 1 = 0x09 \<and>
   mode_field (buffer (snd (fillScreen BLUE used_panel)) ! 1) = 1"
  using fillScreen_mode_field [of used_panel BLUE]
  by (simp add: used_panel_def mode_field_bits)

text \<open>
  Claim C8. For every buffer of 17 bytes and every colour \<open>c\<close> that fits a byte,
  \<^verbatim>\<open>fillScreen(c)\<close> returns and leaves 0 in byte 3 and in byte 4, whatever they held.
\<close>

theorem fillScreen_zeroes_coordinates:
  assumes "length (buffer p) = 17" "0 \<le> c" "c \<le> 255"
  shows "fst (fillScreen c p) = None \<and>
         buffer (snd (fillScreen c p)) ! 3 = 0 \<and>
         buffer (snd (fillScreen c p)) ! 4 = 0"
proof -
  have "4 < length (buffer p)" using assms(1) by simp
  then show ?thesis
    using assms(2,3) by (simp add: fillScreen_ok show_if_auto_write_frame)
qed

theorem fillScreen_zeroes_coordinates_witness:
  "length (buffer used_panel) = 17 \<and> buffer used_panel ! 3 = 0xFF \<and> buffer used_panel ! 4 = 0xFF \<and>
   fst (fillScreen WHITE used_panel) = None \<and>
   buffer (snd (fillScreen WHITE used_panel)) ! 3 = 0 \<and>
   buffer (snd (fillScreen WHITE used_panel)) ! 4 = 0"
  using fillScreen_zeroes_coordinates [of used_panel WHITE]
  by (simp add: used_panel_def WHITE_def)

subsection \<open>Clearing\<close>

lemma upd3_idem:
  "xs[0 := a, Suc 0 := b, 2 := c, 0 := a, Suc 0 := b, 2 := c] = xs[0 := a, Suc 0 := b, 2 := c]"
  by (rule nth_equalityI) (simp_all add: nth_upd)

lemma upd2_idem: "xs[0 := a, Suc 0 := b, 0 := a, Suc 0 := b] = xs[0 := a, Suc 0 := b]"
  by (rule nth_equalityI) (simp_all add: nth_upd)

lemma clear_ok:
  assumes "2 < length (buffer p)"
  shows "clear p =
         (None, snd (show_if_auto_write (p\<lparr>buffer := (buffer p)[0 := 2, 1 := 1, 2 := 0]\<rparr>)))"
  using assms
  by (auto simp: clear_def setitem_def write_reg_def run_show_last)

text \<open>
  Claim C9. \<^verbatim>\<open>clear()\<close> is idempotent on the buffer: from any state of the panel, the buffer
  after two calls of \<^verbatim>\<open>clear()\<close> in a row is the buffer after one call. This holds for a
  buffer of any length, also one too short for the three stores.
\<close>

theorem clear_idempotent:
  "buffer (snd (clear (snd (clear p)))) = buffer (snd (clear p))"
  by (simp add: clear_def setitem_def write_reg_def show_if_auto_write_def show_panel_def
        show_loop_frame upd3_idem upd2_idem)

subsection \<open>Scrolling\<close>

lemma byte_masks:
  "word_of_int (uint b AND NOT (push_bit 2 0x01)) = (b AND NOT 4 :: byte)"
  "word_of_int (uint b OR (push_bit 2 0x01 OR push_bit 1 0x01)) = (b OR 6 :: byte)"
  "word_of_int (uint b OR (push_bit 2 0x01 AND NOT (push_bit 1 0x01))) = (b OR 4 :: byte)"
  by (simp_all add: of_int_and_eq of_int_or_eq of_int_not_eq)

lemma scroll_ranges:
  "0 \<le> uint (b::byte) AND NOT (push_bit 2 0x01) \<and> uint b AND NOT (push_bit 2 0x01) \<le> 255"
  "0 \<le> uint (b::byte) OR (push_bit 2 0x01 OR push_bit 1 0x01) \<and>
   uint b OR (push_bit 2 0x01 OR push_bit 1 0x01) \<le> 255"
  "0 \<le> uint (b::byte) OR (push_bit 2 0x01 AND NOT (push_bit 1 0x01)) \<and>
   uint b OR (push_bit 2 0x01 AND NOT (push_bit 1 0x01)) \<le> 255"
proof -
  have u: "0 \<le> uint b" "uint b < 2 ^ 8"
    using uint_bounded [of b] by simp_all
  have "uint b AND NOT (push_bit 2 0x01) \<le> uint b"
    by (rule AND_upper1) simp
  then show "0 \<le> uint b AND NOT (push_bit 2 0x01) \<and> uint b AND NOT (push_bit 2 0x01) \<le> 255"
    using u by simp
  have "uint b OR 6 < 2 ^ 8"
    using u by (intro OR_upper) simp_all
  then show "0 \<le> uint b OR (push_bit 2 0x01 OR push_bit 1 0x01) \<and>
             uint b OR (push_bit 2 0x01 OR push_bit 1 0x01) \<le> 255"
    by simp
  have "uint b OR 4 < 2 ^ 8"
    using u by (intro OR_upper) simp_all
  then show "0 \<le> uint b OR (push_bit 2 0x01 AND NOT (push_bit 1 0x01)) \<and>
             uint b OR (push_bit 2 0x01 AND NOT (push_bit 1 0x01)) \<le> 255"
    by simp
qed

lemma scroll_None_ok:
  assumes "1 < length (buffer p)"
  shows "scroll None p =
         (None, snd (show_if_auto_write (p\<lparr>buffer := (buffer p)[1 := buffer p ! 1 AND NOT 4]\<rparr>)))"
proof -
  have "modify 1 (\<lambda>b. b AND NOT (push_bit 2 0x01)) p =
        (None, p\<lparr>buffer := (buffer p)[1 := word_of_int (uint (buffer p ! 1) AND NOT (push_bit 2 0x01))]\<rparr>)"
    using assms scroll_ranges(1) [of "buffer p ! 1"] by (intro modify_ok) simp_all
  then show ?thesis
    unfolding byte_masks by (simp add: scroll_def run_show_last)
qed

lemma scroll_Right_ok:
  assumes "1 < length (buffer p)"
  shows "scroll (Some Right) p =
         (None, snd (show_if_auto_write (p\<lparr>buffer := (buffer p)[1 := buffer p ! 1 OR 6]\<rparr>)))"
proof -
  have "modify 1 (\<lambda>b. b OR (push_bit 2 0x01 OR push_bit 1 0x01)) p =
        (None, p\<lparr>buffer := (buffer p)[1 := word_of_int (uint (buffer p ! 1) OR (push_bit 2 0x01 OR push_bit 1 0x01))]\<rparr>)"
    using assms scroll_ranges(2) [of "buffer p ! 1"] by (intro modify_ok) simp_all
  then show ?thesis
    unfolding byte_masks by (simp add: scroll_def run_show_last Right_def Left_def)
qed

lemma scroll_Left_ok:
  assumes "1 < length (buffer p)"
  shows "scroll (Some Left) p =
         (None, snd (show_if_auto_write (p\<lparr>buffer := (buffer p)[1 := buffer p ! 1 OR 4]\<rparr>)))"
proof -
  have "modify 1 (\<lambda>b. b OR (push_bit 2 0x01 AND NOT (push_bit 1 0x01))) p =
        (None, p\<lparr>buffer := (buffer p)[1 := word_of_int (uint (buffer p ! 1) OR (push_bit 2 0x01 AND NOT (push_bit 1 0x01)))]\<rparr>)"
    using assms scroll_ranges(3) [of "buffer p ! 1"] by (intro modify_ok) simp_all
  then show ?thesis
    unfolding byte_masks by (simp add: scroll_def run_show_last Right_def Left_def)
qed

lemma scroll_Left_bits:
  assumes "1 < length (buffer p)"
  shows "bit (buffer (snd (scroll (Some Left) p)) ! 1) 2 \<and>
         bit (buffer (snd (scroll (Some Left) p)) ! 1) 1 = bit (buffer p ! 1) 1"
  using assms by (simp add: scroll_Left_ok show_if_auto_write_frame bit_simps)

text \<open>
  Claim C2 says that \<^verbatim>\<open>scroll(Panel.Left)\<close> sets the scroll-enable bit (bit 2 of byte 1) and
  clears the scroll-direction bit (bit 1). The method computes
  \<^verbatim>\<open>(0x01 << 2) & (~(0x01 << 1))\<close>, which is 4, and only then combines it with the byte by
  \<^verbatim>\<open>|=\<close>: by \<open>scroll_Left_bits\<close> bit 2 is set and bit 1 is left as it was. On a new panel,
  after \<^verbatim>\<open>scroll(Panel.Right)\<close> and then \<^verbatim>\<open>scroll(Panel.Left)\<close>, byte 1 is 6 and the direction
  bit is still 1.
\<close>

theorem scroll_Left_after_Right:
  "buffer (snd (scroll (Some Left) (snd (scroll (Some Right) (the (init True False 0x10)))))) ! 1 = 0x06 \<and>
   bit (buffer (snd (scroll (Some Left) (snd (scroll (Some Right) (the (init True False 0x10)))))) ! 1) 1"
  by code_simp

subsection \<open>Calls that are turned down\<close>

text \<open>
  Claim C5. From every state of the panel, \<^verbatim>\<open>print\<close> of a text of more than 50 characters,
  and \<^verbatim>\<open>scroll\<close> of a direction that is an integer other than \<^verbatim>\<open>Panel.Left\<close> and
  \<^verbatim>\<open>Panel.Right\<close>, print their usage line and return: the buffer is what it was, and
  nothing is written to the bus, whether the panel writes automatically or not.
\<close>

theorem invalid_calls_rejected:
  "(50 < length text \<longrightarrow>
      fst (print text c p) = None \<and>
      buffer (snd (print text c p)) = buffer p \<and>
      bus (snd (print text c p)) = bus p \<and>
      stdout (snd (print text c p)) = stdout p @ [''Usage: text length must be less than 50'']) \<and>
   (d \<noteq> Left \<and> d \<noteq> Right \<longrightarrow>
      fst (scroll (Some d) p) = None \<and>
      buffer (snd (scroll (Some d) p)) = buffer p \<and>
      bus (snd (scroll (Some d) p)) = bus p \<and>
      stdout (snd (scroll (Some d) p)) =
        stdout p @ [''Usage: direction must be Panel.Right or Panel.Left''])"
  by (simp add: print_def scroll_def print_line_def SIZE_def)

theorem invalid_calls_rejected_witness:
  "50 < length (replicate 51 CHR ''x'') \<and> (1::int) \<noteq> Left \<and> (1::int) \<noteq> Right \<and>
   auto_write_flag used_panel \<and>
   fst (print (replicate 51 CHR ''x'') RED used_panel) = None \<and>
   buffer (snd (print (replicate 51 CHR ''x'') RED used_panel)) = buffer used_panel \<and>
   bus (snd (print (replicate 51 CHR ''x'') RED used_panel)) = bus used_panel \<and>
   fst (scroll (Some 1) used_panel) = None \<and>
   buffer (snd (scroll (Some 1) used_panel)) = buffer used_panel \<and>
   bus (snd (scroll (Some 1) used_panel)) = bus used_panel"
  using invalid_calls_rejected [of "replicate 51 CHR ''x''" RED used_panel 1]
  by (simp add: used_panel_def Left_def Right_def)

subsection \<open>Writing to the bus\<close>

text \<open>
  A call that returns after its stores writes the buffer to the bus once when the panel
  writes automatically, and not at all when it does not: this holds for \<^verbatim>\<open>pixel\<close>,
  \<^verbatim>\<open>display\<close>, \<^verbatim>\<open>fillScreen\<close>, \<^verbatim>\<open>clear\<close>, \<^verbatim>\<open>scroll\<close> in its three directions, and \<^verbatim>\<open>print\<close> of a
  text of at most 11 characters. An explicit \<^verbatim>\<open>show()\<close> writes once (\<open>show_panel_one\<close>).
\<close>

lemma flushes_after_stores:
  assumes "panel_inv p" "length b' = length (buffer p)"
    and "r = (None, snd (show_if_auto_write (p\<lparr>buffer := b'\<rparr>)))"
  shows "bus (snd r) =
         bus p @ (if auto_write_flag p then [(hd (i2c_device p), buffer (snd r))] else [])"
proof -
  have "panel_inv (p\<lparr>buffer := b'\<rparr>)"
    using assms(1,2) by (simp add: panel_inv_def)
  then show ?thesis
    unfolding assms(3) by (simp add: show_if_auto_write_def show_panel_one)
qed

lemma valid_calls_flush:
  assumes "panel_inv p" "0 \<le> c" "c \<le> 255" "0 \<le> x" "x \<le> 255" "0 \<le> y" "y \<le> 255"
  shows "bus (snd (pixel x y c p)) =
           bus p @ (if auto_write_flag p
                    then [(hd (i2c_device p), buffer (snd (pixel x y c p)))] else [])"
    and "bus (snd (display x c p)) =
           bus p @ (if auto_write_flag p
                    then [(hd (i2c_device p), buffer (snd (display x c p)))] else [])"
    and "bus (snd (fillScreen c p)) =
           bus p @ (if auto_write_flag p
                    then [(hd (i2c_device p), buffer (snd (fillScreen c p)))] else [])"
    and "bus (snd (clear p)) =
           bus p @ (if auto_write_flag p
                    then [(hd (i2c_device p), buffer (snd (clear p)))] else [])"
    and "bus (snd (scroll None p)) =
           bus p @ (if auto_write_flag p
                    then [(hd (i2c_device p), buffer (snd (scroll None p)))] else [])"
    and "bus (snd (scroll (Some Left) p)) =
           bus p @ (if auto_write_flag p
                    then [(hd (i2c_device p), buffer (snd (scroll (Some Left) p)))] else [])"
    and "bus (snd (scroll (Some Right) p)) =
           bus p @ (if auto_write_flag p
                    then [(hd (i2c_device p), buffer (snd (scroll (Some Right) p)))] else [])"
    and "length text \<le> 11 \<Longrightarrow>
         bus (snd (print text c p)) =
           bus p @ (if auto_write_flag p
                    then [(hd (i2c_device p), buffer (snd (print text c p)))] else [])"
proof -
  have l: "length (buffer p) = 17"
    using assms(1) by (simp add: panel_inv_def)
  show "bus (snd (pixel x y c p)) =
           bus p @ (if auto_write_flag p
                    then [(hd (i2c_device p), buffer (snd (pixel x y c p)))] else [])"
    using assms l by (intro flushes_after_stores [OF _ _ pixel_ok]) simp_all
  show "bus (snd (display x c p)) =
           bus p @ (if auto_write_flag p
                    then [(hd (i2c_device p), buffer (snd (display x c p)))] else [])"
    using assms l by (intro flushes_after_stores [OF _ _ display_ok]) simp_all
  show "bus (snd (fillScreen c p)) =
           bus p @ (if auto_write_flag p
                    then [(hd (i2c_device p), buffer (snd (fillScreen c p)))] else [])"
    using assms l by (intro flushes_after_stores [OF _ _ fillScreen_ok]) simp_all
  show "bus (snd (clear p)) =
           bus p @ (if auto_write_flag p
                    then [(hd (i2c_device p), buffer (snd (clear p)))] else [])"
    using assms l by (intro flushes_after_stores [OF _ _ clear_ok]) simp_all
  show "bus (snd (scroll None p)) =
           bus p @ (if auto_write_flag p
                    then [(hd (i2c_device p), buffer (snd (scroll None p)))] else [])"
    using assms l by (intro flushes_after_stores [OF _ _ scroll_None_ok]) simp_all
  show "bus (snd (scroll (Some Left) p)) =
           bus p @ (if auto_write_flag p
                    then [(hd (i2c_device p), buffer (snd (scroll (Some Left) p)))] else [])"
    using assms l by (intro flushes_after_stores [OF _ _ scroll_Left_ok]) simp_all
  show "bus (snd (scroll (Some Right) p)) =
           bus p @ (if auto_write_flag p
                    then [(hd (i2c_device p), buffer (snd (scroll (Some Right) p)))] else [])"
    using assms l by (intro flushes_after_stores [OF _ _ scroll_Right_ok]) simp_all
  show "bus (snd (print text c p)) =
           bus p @ (if auto_write_flag p
                    then [(hd (i2c_device p), buffer (snd (print text c p)))] else [])"
    if "length text \<le> 11"
    using assms l that by (intro flushes_after_stores [OF _ _ print_short_ok]) simp_all
qed

text \<open>
  Claim C7 says that, on a panel that writes automatically, every valid call writes to
  the bus exactly once, \<^verbatim>\<open>print\<close> of a text of at most 50 characters among them. On such a
  panel \<^verbatim>\<open>print("DFRobot panel", Panel.GREEN)\<close>, a text of 13 characters, leaves the bus as
  it was: the call raises \<^verbatim>\<open>IndexError\<close> in its loop and never reaches \<^verbatim>\<open>show()\<close>.
\<close>

theorem print_thirteen_characters_no_flush:
  "auto_write_flag used_panel \<and>
   bus (snd (print ''DFRobot panel'' GREEN used_panel)) = bus used_panel"
  by code_simp

end
